theory Spec2Isabelle
  imports Complex_Main "HOL-Library.Sublist"
begin

section \<open>Step counter (StepCounterScreen)\<close>

text \<open>
  The two refs and the React state of the screen are the fields of one record that
  every handler takes and returns. The step count and the millisecond clock are
  integers. An accelerometer reading and the acceleration computed from it are
  JavaScript Numbers: a finite double (given by the real number it stands for), an
  infinity, or NaN.
\<close>

datatype number = NaN | NegInfinity | Finite real | Infinity

text \<open>The comparison \<^verbatim>\<open><\<close> of two Numbers; \<^verbatim>\<open>a > b\<close> is \<^verbatim>\<open>b < a\<close>.\<close>

fun number_less :: "number \<Rightarrow> number \<Rightarrow> bool" where
  "number_less NaN b = False"
| "number_less a NaN = False"
| "number_less Infinity b = False"
| "number_less a NegInfinity = False"
| "number_less NegInfinity b = True"
| "number_less a Infinity = True"
| "number_less (Finite a) (Finite b) = (a < b)"

text \<open>Unary minus.\<close>

fun negate :: "number \<Rightarrow> number" where
  "negate NaN = NaN"
| "negate NegInfinity = Infinity"
| "negate (Finite a) = Finite (- a)"
| "negate Infinity = NegInfinity"

text \<open>
  The arithmetic of the JavaScript engine on Numbers: \<^verbatim>\<open>*\<close>, \<^verbatim>\<open>+\<close>, \<^verbatim>\<open>-\<close> and
  \<^verbatim>\<open>Math.sqrt\<close>, each with the rounding of the engine. The operations are a parameter
  of the model: what is proved below holds whatever they return.
\<close>

record numberOps =
  num_mul :: "number \<Rightarrow> number \<Rightarrow> number"
  num_add :: "number \<Rightarrow> number \<Rightarrow> number"
  num_sub :: "number \<Rightarrow> number \<Rightarrow> number"
  num_sqrt :: "number \<Rightarrow> number"

datatype stepDirection = Up | Down

record stepCounter =
  isCounting :: bool
  sessionSteps :: int
  startTime :: "int option"
  duration :: int
  lastZ :: number
  stepState :: stepDirection
  lastStepTime :: int
  subscribed :: bool

text \<open>
  The literal \<^verbatim>\<open>0.08\<close> is the double nearest to 0.08, which is
  \<open>5764607523034235 / 2\<^sup>5\<^sup>6\<close>.
\<close>

definition stepThreshold :: number where
  "stepThreshold = Finite (5764607523034235 / 2 ^ 56)"

definition minStepInterval :: int where
  "minStepInterval = 250"

text \<open>\<^verbatim>\<open>Math.sqrt(x * x + y * y + z * z)\<close> and \<^verbatim>\<open>magnitude - 1.0\<close>.\<close>

definition magnitude :: "numberOps \<Rightarrow> number \<Rightarrow> number \<Rightarrow> number \<Rightarrow> number" where
  "magnitude ops x y z =
     num_sqrt ops (num_add ops (num_add ops (num_mul ops x x) (num_mul ops y y)) (num_mul ops z z))"

definition acceleration :: "numberOps \<Rightarrow> number \<Rightarrow> number \<Rightarrow> number \<Rightarrow> number" where
  "acceleration ops x y z = num_sub ops (magnitude ops x y z) (Finite 1)"

text \<open>
  \<open>startCounting\<close>: \<open>t0\<close> is the value of \<^verbatim>\<open>new Date()\<close>, \<open>now\<close> the value of
  \<^verbatim>\<open>Date.now()\<close> read a few statements later.
\<close>

definition startCounting :: "int \<Rightarrow> int \<Rightarrow> stepCounter \<Rightarrow> stepCounter" where
  "startCounting t0 now s =
     s\<lparr>sessionSteps := 0, startTime := Some t0, duration := 0, isCounting := True,
       lastZ := Finite 0, stepState := Down, lastStepTime := now, subscribed := True\<rparr>"

text \<open>
  The accelerometer listener, called once per sample \<open>(x, y, z)\<close> with the clock
  reading \<open>now\<close> of that call. \<open>detectStep\<close> is its body below the line that computes
  the acceleration \<open>a\<close>.
\<close>

definition detectStep :: "number \<Rightarrow> int \<Rightarrow> stepCounter \<Rightarrow> stepCounter" where
  "detectStep a now s =
     (let timeSinceLastStep = now - lastStepTime s;
          s1 = (if number_less stepThreshold a \<and> stepState s = Down then s\<lparr>stepState := Up\<rparr>
                else if number_less a (negate stepThreshold) \<and> stepState s = Up then
                  (let s2 = (if timeSinceLastStep > minStepInterval
                             then s\<lparr>lastStepTime := now, sessionSteps := sessionSteps s + 1\<rparr>
                             else s)
                   in s2\<lparr>stepState := Down\<rparr>)
                else s)
      in s1\<lparr>lastZ := a\<rparr>)"

definition listener ::
  "numberOps \<Rightarrow> number \<times> number \<times> number \<Rightarrow> int \<Rightarrow> stepCounter \<Rightarrow> stepCounter" where
  "listener ops d now s = (case d of (x, y, z) \<Rightarrow> detectStep (acceleration ops x y z) now s)"

text \<open>A sample stream: the listener applied to each timed sample in order.\<close>

fun feed ::
  "numberOps \<Rightarrow> ((number \<times> number \<times> number) \<times> int) list \<Rightarrow> stepCounter \<Rightarrow> stepCounter" where
  "feed ops [] s = s"
| "feed ops ((d, now) # ds) s = feed ops ds (listener ops d now s)"

text \<open>The state of a freshly mounted screen: the initial values of its hooks.\<close>

definition initialCounter :: stepCounter where
  "initialCounter =
     \<lparr>isCounting = False, sessionSteps = 0, startTime = None, duration = 0, lastZ = Finite 0,
      stepState = Down, lastStepTime = 0, subscribed = False\<rparr>"

definition resetSession :: "stepCounter \<Rightarrow> stepCounter" where
  "resetSession s =
     s\<lparr>sessionSteps := 0, startTime := None, duration := 0, lastZ := Finite 0,
       stepState := Down, lastStepTime := 0\<rparr>"

text \<open>
  \<^verbatim>\<open>x.toFixed(d)\<close>, as the number its decimal string denotes: the integer \<open>n\<close> with
  \<open>n / 10^d\<close> closest to \<open>\<bar>x\<bar>\<close>, the larger one on a tie, with the sign of \<open>x\<close>.
  \<^verbatim>\<open>parseFloat\<close> of that string is the same number.

  The metrics below are written with the exact products. The engine computes them in
  doubles, and the double of a product that lies exactly halfway between two candidates
  may lie below the halfway point; \<open>toFixed\<close> then prints the smaller candidate. The flag
  \<open>tieDown\<close> says that this is so. It is a parameter, like the arithmetic above; away
  from a tie it plays no part (for the step counts a session can reach, the rounding
  error of the doubles is far smaller than the distance of any other product from a
  halfway point). At 7500 steps the distance 5.715 km is such a tie, and the engine
  prints 5.71 (\<open>distance_at_tie\<close> below).
\<close>

definition toFixed :: "bool \<Rightarrow> real \<Rightarrow> nat \<Rightarrow> real" where
  "toFixed tieDown x d =
     (let y = \<bar>x\<bar> * 10 ^ d;
          n = (if tieDown \<and> y - real_of_int \<lfloor>y\<rfloor> = 1 / 2 then \<lfloor>y\<rfloor> else \<lfloor>y + 1 / 2\<rfloor>)
      in if x < 0 then - (real_of_int n / 10 ^ d) else real_of_int n / 10 ^ d)"

text \<open>
  The calories \<open>n \<times> 0.04\<close> of a whole number of steps are never halfway between two
  integers or two multiples of 0.01, so their roundings take no flag.
\<close>

definition calculateDistance :: "bool \<Rightarrow> stepCounter \<Rightarrow> real" where
  "calculateDistance tieDown s =
     toFixed tieDown ((real_of_int (sessionSteps s) * (762 / 1000)) / 1000) 2"

definition calculateCalories :: "stepCounter \<Rightarrow> real" where
  "calculateCalories s = toFixed False (real_of_int (sessionSteps s) * (4 / 100)) 0"

record stepSession =
  session_startTime :: "int option"
  session_endTime :: int
  session_steps :: int
  session_distance :: real
  session_calories :: real

text \<open>
  What \<open>stopCounting\<close> shows: either the "No Steps Recorded" alert, or the
  "Session Complete" alert with the displayed steps, distance, calories and duration
  and the session that its Save button hands to \<open>saveSession\<close>.
\<close>

datatype stopAlert =
    NoStepsRecorded
  | SessionComplete int real real int stepSession

definition stopCounting :: "bool \<Rightarrow> int \<Rightarrow> stepCounter \<Rightarrow> stepCounter \<times> stopAlert" where
  "stopCounting tieDown endT s =
     (let s1 = s\<lparr>subscribed := False, isCounting := False\<rparr>
      in if sessionSteps s = 0 then (resetSession s1, NoStepsRecorded)
         else
           let distance = (real_of_int (sessionSteps s) * (762 / 1000)) / 1000;
               calories = real_of_int (sessionSteps s) * (4 / 100)
           in (s1, SessionComplete (sessionSteps s) (toFixed tieDown distance 2)
                     (toFixed False calories 0) (duration s)
                     \<lparr>session_startTime = startTime s, session_endTime = endT,
                      session_steps = sessionSteps s,
                      session_distance = toFixed tieDown distance 2,
                      session_calories = toFixed False calories 2\<rparr>))"

text \<open>
  A short session used as a concrete input below: counting starts at clock reading 1000,
  a sample with the computed acceleration 1 arrives at 1100 (the reading \<open>(0, 0, 2)\<close>)
  and a sample with the computed acceleration -1 at 1300 (the reading \<open>(0, 0, 0)\<close>).
\<close>

definition oneStepSession :: stepCounter where
  "oneStepSession =
     detectStep (Finite (- 1)) 1300
       (detectStep (Finite 1) 1100 (startCounting 1000 1000 initialCounter))"

section \<open>JavaScript strings and the regular expressions of the forms\<close>

text \<open>
  A JavaScript string is a sequence of UTF-16 code units; \<^verbatim>\<open>length\<close> counts them.
  \<open>js\<close> turns a literal into its code units.
\<close>

type_synonym jsstring = "nat list"

definition js :: "string \<Rightarrow> jsstring" where
  "js s = map of_char s"

text \<open>
  The characters matched by \<^verbatim>\<open>\s\<close> and removed by \<^verbatim>\<open>trim()\<close>: the WhiteSpace and
  LineTerminator code points of ECMAScript.
\<close>

definition isWhiteSpace :: "nat \<Rightarrow> bool" where
  "isWhiteSpace c \<longleftrightarrow>
     c = 9 \<or> c = 10 \<or> c = 11 \<or> c = 12 \<or> c = 13 \<or> c = 32 \<or> c = 160 \<or> c = 5760 \<or>
     (8192 \<le> c \<and> c \<le> 8202) \<or> c = 8232 \<or> c = 8233 \<or> c = 8239 \<or> c = 8287 \<or>
     c = 12288 \<or> c = 65279"

text \<open>The characters that \<^verbatim>\<open>.\<close> does not match.\<close>

definition isLineTerminator :: "nat \<Rightarrow> bool" where
  "isLineTerminator c \<longleftrightarrow> c = 10 \<or> c = 13 \<or> c = 8232 \<or> c = 8233"

definition isLower :: "nat \<Rightarrow> bool" where
  "isLower c \<longleftrightarrow> 97 \<le> c \<and> c \<le> 122"

definition isUpper :: "nat \<Rightarrow> bool" where
  "isUpper c \<longleftrightarrow> 65 \<le> c \<and> c \<le> 90"

definition isDigit :: "nat \<Rightarrow> bool" where
  "isDigit c \<longleftrightarrow> 48 \<le> c \<and> c \<le> 57"

definition trim :: "jsstring \<Rightarrow> jsstring" where
  "trim s = rev (dropWhile isWhiteSpace (rev (dropWhile isWhiteSpace s)))"

text \<open>
  \<^verbatim>\<open>toLowerCase()\<close>. In a string of ASCII code units it turns the letters A to Z into
  a to z and leaves every other code unit as it is. For a string with a code unit outside
  ASCII the result is given by the Unicode case mapping of the engine, which maps every
  cased letter and may change the length: \<open>caseTable\<close>, a parameter of the model.
\<close>

definition toLowerCase :: "(jsstring \<Rightarrow> jsstring) \<Rightarrow> jsstring \<Rightarrow> jsstring" where
  "toLowerCase caseTable s =
     (if \<forall>c \<in> set s. c < 128 then map (\<lambda>c. if isUpper c then c + 32 else c) s
      else caseTable s)"

text \<open>
  Regular expressions over code units, matched by derivatives. A character class is a
  predicate; \<open>r+\<close> is \<open>r\<close> followed by \<open>r*\<close>.
\<close>

datatype rx =
    Empty
  | Eps
  | Cls "nat \<Rightarrow> bool"
  | Seq rx rx
  | Alt rx rx
  | Star rx

definition Plus_rx :: "rx \<Rightarrow> rx" where
  "Plus_rx r = Seq r (Star r)"

fun nullable :: "rx \<Rightarrow> bool" where
  "nullable Empty = False"
| "nullable Eps = True"
| "nullable (Cls P) = False"
| "nullable (Seq r q) = (nullable r \<and> nullable q)"
| "nullable (Alt r q) = (nullable r \<or> nullable q)"
| "nullable (Star r) = True"

fun deriv :: "nat \<Rightarrow> rx \<Rightarrow> rx" where
  "deriv c Empty = Empty"
| "deriv c Eps = Empty"
| "deriv c (Cls P) = (if P c then Eps else Empty)"
| "deriv c (Seq r q) =
     (if nullable r then Alt (Seq (deriv c r) q) (deriv c q) else Seq (deriv c r) q)"
| "deriv c (Alt r q) = Alt (deriv c r) (deriv c q)"
| "deriv c (Star r) = Seq (deriv c r) (Star r)"

text \<open>\<open>matches r s\<close>: the whole of \<open>s\<close> matches \<open>r\<close> (a pattern between \<^verbatim>\<open>^\<close> and \<^verbatim>\<open>$\<close>).\<close>

fun matches :: "rx \<Rightarrow> jsstring \<Rightarrow> bool" where
  "matches r [] = nullable r"
| "matches r (c # s) = matches (deriv c r) s"

text \<open>\<open>lookahead r t\<close>: \<^verbatim>\<open>(?=r)\<close> at the start of \<open>t\<close>, some prefix of \<open>t\<close> matches \<open>r\<close>.\<close>

definition lookahead :: "rx \<Rightarrow> jsstring \<Rightarrow> bool" where
  "lookahead r t \<longleftrightarrow> (\<exists>p \<in> set (prefixes t). matches r p)"

text \<open>\<open>search r s\<close>: \<^verbatim>\<open>/r/.test(s)\<close> for an unanchored pattern, a match starting anywhere.\<close>

definition search :: "rx \<Rightarrow> jsstring \<Rightarrow> bool" where
  "search r s \<longleftrightarrow> (\<exists>t \<in> set (suffixes s). lookahead r t)"

text \<open>\<^verbatim>\<open>/^[^\s@]+@[^\s@]+\.[^\s@]+$/\<close>\<close>

definition notSpaceOrAt :: "nat \<Rightarrow> bool" where
  "notSpaceOrAt c \<longleftrightarrow> \<not> (isWhiteSpace c \<or> c = 64)"

definition emailRegex :: rx where
  "emailRegex =
     Seq (Plus_rx (Cls notSpaceOrAt))
       (Seq (Cls (\<lambda>c. c = 64))
         (Seq (Plus_rx (Cls notSpaceOrAt))
           (Seq (Cls (\<lambda>c. c = 46)) (Plus_rx (Cls notSpaceOrAt)))))"

text \<open>
  \<^verbatim>\<open>/(?=.*[a-z])(?=.*[A-Z])(?=.*\d)(?=.*[^A-Za-z0-9])/\<close>: four lookaheads at one start
  position, which may be any position of the string.
\<close>

definition anyThen :: "(nat \<Rightarrow> bool) \<Rightarrow> rx" where
  "anyThen P = Seq (Star (Cls (\<lambda>c. \<not> isLineTerminator c))) (Cls P)"

definition passwordRegexTest :: "jsstring \<Rightarrow> bool" where
  "passwordRegexTest s \<longleftrightarrow>
     (\<exists>t \<in> set (suffixes s).
        lookahead (anyThen isLower) t \<and> lookahead (anyThen isUpper) t \<and>
        lookahead (anyThen isDigit) t \<and>
        lookahead (anyThen (\<lambda>c. \<not> (isUpper c \<or> isLower c \<or> isDigit c))) t)"

section \<open>Effects of the screen handlers\<close>

datatype userType = patient

datatype severityLevel = beginning | moderate | severe

text \<open>The JSON bodies the handlers below send.\<close>

datatype body =
    LoginCredentials jsstring jsstring
  | SignupData jsstring jsstring jsstring jsstring jsstring userType
  | OTPVerification jsstring jsstring
  | ExerciseLog severityLevel "jsstring list" nat
  | FormData
  | NoBody

datatype effect =
    Alert string string
  | Post string body

definition posts :: "effect list \<Rightarrow> (string \<times> body) list" where
  "posts es = concat (map (\<lambda>e. case e of Post u b \<Rightarrow> [(u, b)] | Alert t m \<Rightarrow> []) es)"

text \<open>
  How a request made by a handler ends: the awaited call resolves or throws. The text of
  an alert that comes from the thrown error is left empty.
\<close>

datatype outcome = Resolves | Throws

section \<open>Signup and login screens\<close>

record signupScreen =
  firstName :: jsstring
  lastName :: jsstring
  email :: jsstring
  password :: jsstring
  confirmPassword :: jsstring

text \<open>
  \<open>newErrors\<close> is the list of the keys set, each with its message; no key is set twice.
\<close>

definition newErrors :: "signupScreen \<Rightarrow> (string \<times> string) list" where
  "newErrors f =
     (if trim (firstName f) = [] then [(''firstName'', ''First name is required'')] else []) @
     (if trim (lastName f) = [] then [(''lastName'', ''Last name is required'')] else []) @
     (if trim (email f) = [] then [(''email'', ''Email is required'')]
      else if \<not> matches emailRegex (email f) then [(''email'', ''Invalid email format'')]
      else []) @
     (if password f = [] then [(''password'', ''Password is required'')]
      else if length (password f) < 8
        then [(''password'', ''Password must be at least 8 characters'')]
      else if \<not> passwordRegexTest (password f)
        then [(''password'',
               ''Password must include uppercase, lowercase, number, and special character'')]
      else if search (Cls isWhiteSpace) (password f)
        then [(''password'', ''Password cannot contain spaces'')]
      else []) @
     (if confirmPassword f = [] then [(''confirmPassword'', ''Please confirm your password'')]
      else if password f \<noteq> confirmPassword f
        then [(''confirmPassword'', ''Passwords do not match'')]
      else [])"

definition validateForm :: "signupScreen \<Rightarrow> bool" where
  "validateForm f \<longleftrightarrow> length (newErrors f) = 0"

text \<open>
  \<open>handleSignup\<close>: the context's \<open>signup\<close> passes its argument to \<open>authService.signup\<close>,
  which posts it to \<^verbatim>\<open>/auth/signup\<close>; \<open>out\<close> is how that call ends and \<open>caseTable\<close> is
  the case mapping of the engine that \<open>toLowerCase\<close> uses.
\<close>

definition handleSignup ::
  "(jsstring \<Rightarrow> jsstring) \<Rightarrow> outcome \<Rightarrow> signupScreen \<Rightarrow> effect list" where
  "handleSignup caseTable out f =
     (if \<not> validateForm f then []
      else
        Post ''/auth/signup''
          (SignupData (toLowerCase caseTable (trim (email f))) (password f) (confirmPassword f)
             (trim (firstName f)) (trim (lastName f)) patient)
        # (case out of Resolves \<Rightarrow> [] | Throws \<Rightarrow> [Alert ''Signup Failed'' []]))"

text \<open>\<open>handleLogin\<close> of the login screen, whose state is the two fields.\<close>

definition handleLogin ::
  "(jsstring \<Rightarrow> jsstring) \<Rightarrow> outcome \<Rightarrow> jsstring \<Rightarrow> jsstring \<Rightarrow> effect list" where
  "handleLogin caseTable out email_field password_field =
     (if trim email_field = [] \<or> trim password_field = []
      then [Alert ''Error'' ''Please fill in all fields'']
      else
        Post ''/auth/login''
          (LoginCredentials (toLowerCase caseTable (trim email_field)) password_field)
        # (case out of Resolves \<Rightarrow> [] | Throws \<Rightarrow> [Alert ''Login Failed'' []]))"

section \<open>OTP screen\<close>

definition OTP_LENGTH :: nat where
  "OTP_LENGTH = 6"

record otpScreen =
  route_email :: jsstring
  otp :: "jsstring list"
  loading :: bool

definition handleVerify :: "outcome \<Rightarrow> otpScreen \<Rightarrow> otpScreen \<times> effect list" where
  "handleVerify out st =
     (let otpCode = concat (otp st)
      in if length otpCode \<noteq> OTP_LENGTH
         then (st, [Alert ''Error'' ''Please enter the complete OTP code''])
         else
           (case out of
              Resolves \<Rightarrow>
                (st\<lparr>loading := False\<rparr>,
                 [Post ''/auth/verify-otp'' (OTPVerification (route_email st) otpCode)])
            | Throws \<Rightarrow>
                (st\<lparr>otp := replicate OTP_LENGTH [], loading := False\<rparr>,
                 [Post ''/auth/verify-otp'' (OTPVerification (route_email st) otpCode),
                  Alert ''Verification Failed'' []])))"

section \<open>Exercise plans screen\<close>

datatype exercise = Exercise jsstring jsstring jsstring jsstring

datatype exercisePlan = ExercisePlan jsstring jsstring (exercises: "exercise list")

record exerciseScreen =
  selectedPlan :: "severityLevel option"
  plans :: "(severityLevel \<Rightarrow> exercisePlan) option"
  completedExercises :: "jsstring list"
  saving :: bool
  lastSaved :: "int option"
  showSaveSuccess :: bool

definition toggleExercise ::
  "jsstring \<Rightarrow> int \<Rightarrow> outcome \<Rightarrow> exerciseScreen \<Rightarrow> exerciseScreen \<times> effect list" where
  "toggleExercise exerciseId now out st =
     (case (selectedPlan st, plans st) of
        (Some level, Some ps) \<Rightarrow>
          let newCompleted =
                (if exerciseId \<in> set (completedExercises st)
                 then filter (\<lambda>i. i \<noteq> exerciseId) (completedExercises st)
                 else completedExercises st @ [exerciseId]);
              st1 = st\<lparr>completedExercises := newCompleted, saving := True\<rparr>;
              totalExercises = length (exercises (ps level));
              req = Post ''/activity/exercise/log'' (ExerciseLog level newCompleted totalExercises)
          in (case out of
                Resolves \<Rightarrow>
                  (st1\<lparr>lastSaved := Some now, showSaveSuccess := True, saving := False\<rparr>, [req])
              | Throws \<Rightarrow>
                  (st1\<lparr>completedExercises := completedExercises st, saving := False\<rparr>,
                   [req, Alert ''Error'' ''Failed to save progress'']))
      | _ \<Rightarrow> (st, []))"

section \<open>The shared API client and the auth context\<close>

definition STORAGE_KEYS_TOKEN :: string where
  "STORAGE_KEYS_TOKEN = ''@kneeklinic:token''"

definition STORAGE_KEYS_USER :: string where
  "STORAGE_KEYS_USER = ''@kneeklinic:user''"

text \<open>AsyncStorage: string values under string keys.\<close>

type_synonym asyncStorage = "string \<rightharpoonup> jsstring"

definition multiRemove :: "string list \<Rightarrow> asyncStorage \<Rightarrow> asyncStorage" where
  "multiRemove ks storage = fold (\<lambda>k m. m(k := None)) ks storage"

text \<open>
  A request configuration. Its \<open>headers\<close> are always present, as the type
  \<^verbatim>\<open>InternalAxiosRequestConfig\<close> says.
\<close>

record requestConfig =
  url :: string
  headers :: "string \<rightharpoonup> jsstring"
  data :: body

text \<open>
  The request interceptor. \<^verbatim>\<open>if (token && ...)\<close> holds for a stored string that is not
  empty.
\<close>

definition requestInterceptor :: "asyncStorage \<Rightarrow> requestConfig \<Rightarrow> requestConfig" where
  "requestInterceptor storage config =
     (let token = storage STORAGE_KEYS_TOKEN;
          c1 = (case token of
                  None \<Rightarrow> config
                | Some t \<Rightarrow>
                    if t \<noteq> []
                    then config\<lparr>headers := (headers config)(''Authorization'' \<mapsto> js ''Bearer '' @ t)\<rparr>
                    else config)
      in if data c1 = FormData
         then c1\<lparr>headers := (headers c1)(''Content-Type'' := None)\<rparr>
         else c1)"

text \<open>
  The configuration that a call of the client sends: the instance's default header, the
  headers \<open>hs\<close> that the caller passes, then the request interceptor.
\<close>

definition apiClient_request ::
  "string \<Rightarrow> body \<Rightarrow> (string \<rightharpoonup> jsstring) \<Rightarrow> asyncStorage \<Rightarrow> requestConfig" where
  "apiClient_request u b hs storage =
     requestInterceptor storage
       \<lparr>url = u, headers = [''Content-Type'' \<mapsto> js ''application/json''] ++ hs, data = b\<rparr>"

text \<open>
  An error of the client: \<open>response_status\<close> is \<^verbatim>\<open>error.response?.status\<close>, absent when
  no response arrived.
\<close>

record axiosError =
  error_message :: jsstring
  response_status :: "int option"

text \<open>The two handlers of the response interceptor.\<close>

definition responseFulfilled :: "int \<Rightarrow> asyncStorage \<Rightarrow> asyncStorage \<times> (axiosError + int)" where
  "responseFulfilled response storage = (storage, Inr response)"

definition responseRejected ::
  "axiosError \<Rightarrow> asyncStorage \<Rightarrow> asyncStorage \<times> (axiosError + int)" where
  "responseRejected error storage =
     (if response_status error = Some 401
      then (multiRemove [STORAGE_KEYS_TOKEN, STORAGE_KEYS_USER] storage, Inl error)
      else (storage, Inl error))"

text \<open>
  What the network does with a request: a response with a status, or none. The client
  is created without \<^verbatim>\<open>validateStatus\<close>, so a response is an error unless its status is
  in the range 200 to 299.
\<close>

datatype reply = Response int | NoResponse

definition settle :: "reply \<Rightarrow> asyncStorage \<Rightarrow> asyncStorage \<times> (axiosError + int)" where
  "settle r storage =
     (case r of
        Response st \<Rightarrow>
          if 200 \<le> st \<and> st < 300 then responseFulfilled st storage
          else responseRejected \<lparr>error_message = [], response_status = Some st\<rparr> storage
      | NoResponse \<Rightarrow>
          responseRejected \<lparr>error_message = js ''Network Error'', response_status = None\<rparr> storage)"

text \<open>
  The request interceptor changes no stored state, so what a call of the client leaves in
  the storage is what \<open>settle\<close> leaves there; \<open>apiClient_request\<close> above is the
  configuration that goes out.
\<close>

definition apiClient_post ::
  "string \<Rightarrow> body \<Rightarrow> reply \<Rightarrow> asyncStorage \<Rightarrow> asyncStorage \<times> (axiosError + int)" where
  "apiClient_post u b r storage = settle r storage"

text \<open>\<open>AuthService.logout\<close>: the error of the request is caught, the call resolves.\<close>

definition authService_logout :: "reply \<Rightarrow> asyncStorage \<Rightarrow> asyncStorage \<times> (axiosError + unit)" where
  "authService_logout r storage =
     (case apiClient_post ''/api/auth/logout'' NoBody r storage of
        (storage', Inl error) \<Rightarrow> (storage', Inr ())
      | (storage', Inr response) \<Rightarrow> (storage', Inr ()))"

text \<open>The state of \<open>AuthProvider\<close>, for any type of user profile.\<close>

record 'u authProvider =
  user :: "'u option"
  token :: "jsstring option"
  isLoading :: bool

text \<open>\<^verbatim>\<open>!!user && !!token\<close>: the empty string counts as no token.\<close>

definition isAuthenticated :: "'u authProvider \<Rightarrow> bool" where
  "isAuthenticated a \<longleftrightarrow> user a \<noteq> None \<and> token a \<noteq> None \<and> token a \<noteq> Some []"

definition clearAuthData ::
  "'u authProvider \<times> asyncStorage \<Rightarrow> 'u authProvider \<times> asyncStorage" where
  "clearAuthData p =
     (case p of (a, storage) \<Rightarrow>
        (a\<lparr>user := None, token := None\<rparr>,
         multiRemove [STORAGE_KEYS_TOKEN, STORAGE_KEYS_USER] storage))"

text \<open>
  \<open>logout\<close> of the provider: try the service's logout, log an error if it throws, and in
  the \<^verbatim>\<open>finally\<close> branch clear the auth data.
\<close>

definition logout ::
  "reply \<Rightarrow> 'u authProvider \<times> asyncStorage \<Rightarrow> 'u authProvider \<times> asyncStorage" where
  "logout r p =
     (case p of (a, storage) \<Rightarrow>
        (case authService_logout r storage of
           (storage', Inl error) \<Rightarrow> clearAuthData (a, storage')
         | (storage', Inr u) \<Rightarrow> clearAuthData (a, storage')))"

section \<open>Concrete inputs\<close>

definition validSignup :: signupScreen where
  "validSignup =
     \<lparr>firstName = js '' Ann'', lastName = js ''Lee'', email = js ''Ann@Mail.com'',
      password = js ''Abcdef1!'', confirmPassword = js ''Abcdef1!''\<rparr>"

definition signedInStorage :: asyncStorage where
  "signedInStorage =
     [''@kneeklinic:token'' \<mapsto> js ''abc'', ''@kneeklinic:user'' \<mapsto> js ''{}'',
      ''@kneeklinic:hasOnboarded'' \<mapsto> js ''true'']"

definition enteredOtp :: otpScreen where
  "enteredOtp =
     \<lparr>route_email = js ''ann@mail.com'',
      otp = [js ''1'', js ''2'', js ''3'', js ''4'', js ''5'', js ''6''], loading = False\<rparr>"

definition exerciseDay :: exerciseScreen where
  "exerciseDay =
     \<lparr>selectedPlan = Some moderate,
      plans = Some (\<lambda>l. ExercisePlan [] []
                [Exercise (js ''e1'') [] [] [], Exercise (js ''e2'') [] [] []]),
      completedExercises = [js ''e1''], saving = False, lastSaved = None,
      showSaveSuccess = False\<rparr>"

section \<open>The language of a regular expression\<close>

text \<open>
  The set of strings a regular expression denotes, used only to reason about
  \<open>matches\<close>: the matcher by derivatives accepts exactly this set.
\<close>

definition conc :: "jsstring set \<Rightarrow> jsstring set \<Rightarrow> jsstring set" where
  "conc A B = {u @ v | u v. u \<in> A \<and> v \<in> B}"

inductive_set star :: "jsstring set \<Rightarrow> jsstring set" for A :: "jsstring set" where
  star_empty: "[] \<in> star A"
| star_more: "u \<in> A \<Longrightarrow> v \<in> star A \<Longrightarrow> u @ v \<in> star A"

fun lang :: "rx \<Rightarrow> jsstring set" where
  "lang Empty = {}"
| "lang Eps = {[]}"
| "lang (Cls P) = {[c] | c. P c}"
| "lang (Seq r q) = conc (lang r) (lang q)"
| "lang (Alt r q) = lang r \<union> lang q"
| "lang (Star r) = star (lang r)"

section \<open>Properties of the step counter\<close>

lemma detectStep_steps:
  "sessionSteps (detectStep a now s) = sessionSteps s \<or>
   sessionSteps (detectStep a now s) = sessionSteps s + 1"
  by (simp add: detectStep_def Let_def)

lemma detectStep_time:
  "sessionSteps (detectStep a now s) = sessionSteps s \<Longrightarrow>
   lastStepTime (detectStep a now s) = lastStepTime s"
  by (auto simp: detectStep_def Let_def split: if_splits)

lemma listener_steps:
  "sessionSteps (listener ops d now s) = sessionSteps s \<or>
   sessionSteps (listener ops d now s) = sessionSteps s + 1"
  by (cases d) (simp add: listener_def detectStep_steps)

lemma feed_append: "feed ops (ds @ es) s = feed ops es (feed ops ds s)"
  by (induction ds arbitrary: s) auto

lemma feed_mono: "sessionSteps s \<le> sessionSteps (feed ops ds s)"
proof (induction ds arbitrary: s)
  case Nil
  show ?case by simp
next
  case (Cons p ds)
  obtain d now where p: "p = (d, now)" by (cases p)
  have "sessionSteps s \<le> sessionSteps (listener ops d now s)"
    using listener_steps [of ops d now s] by linarith
  also have "\<dots> \<le> sessionSteps (feed ops ds (listener ops d now s))" by (rule Cons.IH)
  finally show ?case by (simp add: p)
qed

lemma feed_time:
  "sessionSteps (feed ops ds s) = sessionSteps s \<Longrightarrow>
   lastStepTime (feed ops ds s) = lastStepTime s"
proof (induction ds arbitrary: s)
  case Nil
  show ?case by simp
next
  case (Cons p ds)
  obtain x y z now where p: "p = ((x, y, z), now)" by (cases p) auto
  let ?s1 = "listener ops (x, y, z) now s"
  have le1: "sessionSteps s \<le> sessionSteps ?s1"
    using listener_steps [of ops "(x, y, z)" now s] by linarith
  have le2: "sessionSteps ?s1 \<le> sessionSteps (feed ops ds ?s1)" by (rule feed_mono)
  from Cons.prems have eq: "sessionSteps (feed ops ds ?s1) = sessionSteps s" by (simp add: p)
  with le1 le2 have 1: "sessionSteps ?s1 = sessionSteps s"
    and 2: "sessionSteps (feed ops ds ?s1) = sessionSteps ?s1" by linarith+
  from 1 have "lastStepTime ?s1 = lastStepTime s"
    by (simp add: listener_def detectStep_time)
  moreover from 2 have "lastStepTime (feed ops ds ?s1) = lastStepTime ?s1" by (rule Cons.IH)
  ultimately show ?case by (simp add: p)
qed

lemmas step_defs =
  startCounting_def initialCounter_def detectStep_def Let_def stepThreshold_def
  minStepInterval_def

lemma oneStepSession_steps: "sessionSteps oneStepSession = 1"
  by (simp add: oneStepSession_def step_defs)

lemma round_close:
  "\<bar>real_of_int (if t \<and> y - real_of_int \<lfloor>y\<rfloor> = 1 / 2 then \<lfloor>y\<rfloor> else \<lfloor>y + 1 / 2\<rfloor>) - y\<bar> \<le> 1 / 2"
proof (cases "t \<and> y - real_of_int \<lfloor>y\<rfloor> = 1 / 2")
  case True
  then show ?thesis by simp
next
  case False
  have "\<bar>real_of_int \<lfloor>y + 1 / 2\<rfloor> - y\<bar> \<le> 1 / 2" by linarith
  with False show ?thesis by auto
qed

lemma toFixed_nonneg:
  "0 \<le> x \<Longrightarrow>
   toFixed t x d =
     real_of_int (if t \<and> x * 10 ^ d - real_of_int \<lfloor>x * 10 ^ d\<rfloor> = 1 / 2 then \<lfloor>x * 10 ^ d\<rfloor>
                  else \<lfloor>x * 10 ^ d + 1 / 2\<rfloor>) / 10 ^ d"
  by (simp add: toFixed_def Let_def)

lemma toFixed_close:
  assumes "0 \<le> x"
  shows "\<bar>toFixed t x d - x\<bar> \<le> 1 / (2 * 10 ^ d)"
proof -
  define p :: real where "p = 10 ^ d"
  define k where
    "k = real_of_int (if t \<and> x * p - real_of_int \<lfloor>x * p\<rfloor> = 1 / 2 then \<lfloor>x * p\<rfloor>
                      else \<lfloor>x * p + 1 / 2\<rfloor>)"
  have p: "0 < p" by (simp add: p_def)
  have "\<bar>k - x * p\<bar> \<le> 1 / 2"
    unfolding k_def by (rule round_close)
  then have "\<bar>k - x * p\<bar> / p \<le> (1 / 2) / p"
    using p by (intro divide_right_mono) simp_all
  moreover have "k / p - x = (k - x * p) / p"
    using p by (simp add: field_simps)
  then have "\<bar>k / p - x\<bar> = \<bar>k - x * p\<bar> / p"
    using p by simp
  ultimately have "\<bar>k / p - x\<bar> \<le> 1 / (2 * p)" by simp
  moreover have "toFixed t x d = k / p"
    using assms unfolding k_def p_def by (rule toFixed_nonneg)
  ultimately show ?thesis by (simp add: p_def)
qed

lemma toFixed_grid: "\<exists>k::int. toFixed t x d = real_of_int k / 10 ^ d"
proof -
  define y where "y = \<bar>x\<bar> * 10 ^ d"
  define n where "n = (if t \<and> y - real_of_int \<lfloor>y\<rfloor> = 1 / 2 then \<lfloor>y\<rfloor> else \<lfloor>y + 1 / 2\<rfloor>)"
  have "toFixed t x d = (if x < 0 then real_of_int (- n) / 10 ^ d else real_of_int n / 10 ^ d)"
    by (simp add: toFixed_def Let_def y_def n_def)
  then have "toFixed t x d = real_of_int (if x < 0 then - n else n) / 10 ^ d"
    by simp
  then show ?thesis by (rule exI)
qed

lemma calories_tie_free:
  fixes n :: int
  defines "y \<equiv> \<bar>real_of_int n * (4 / 100)\<bar>"
  shows "y * 10 ^ 0 - real_of_int \<lfloor>y * 10 ^ 0\<rfloor> \<noteq> 1 / 2"
    and "y * 10 ^ 2 - real_of_int \<lfloor>y * 10 ^ 2\<rfloor> \<noteq> 1 / 2"
proof -
  define m where "m = \<bar>n\<bar>"
  have y: "y = real_of_int m * 4 / 100"
    by (simp add: y_def m_def abs_mult)
  show "y * 10 ^ 0 - real_of_int \<lfloor>y * 10 ^ 0\<rfloor> \<noteq> 1 / 2"
  proof
    assume a: "y * 10 ^ 0 - real_of_int \<lfloor>y * 10 ^ 0\<rfloor> = 1 / 2"
    define k where "k = \<lfloor>y * 10 ^ 0\<rfloor>"
    from a have "real_of_int m * 4 / 100 - real_of_int k = 1 / 2"
      by (simp add: y k_def)
    then have "real_of_int m * 8 = real_of_int k * 200 + 100"
      by (simp add: field_simps)
    then have "real_of_int (8 * m) = real_of_int (200 * k + 100)"
      by simp
    then have "8 * m = 200 * k + 100" by (simp only: of_int_eq_iff)
    then show False by presburger
  qed
  have "y * 10 ^ 2 = real_of_int (4 * m)"
    by (simp add: y)
  then have "\<lfloor>y * 10 ^ 2\<rfloor> = 4 * m" by (simp only: floor_of_int)
  then have "y * 10 ^ 2 - real_of_int \<lfloor>y * 10 ^ 2\<rfloor> = 0"
    by (simp add: y)
  then show "y * 10 ^ 2 - real_of_int \<lfloor>y * 10 ^ 2\<rfloor> \<noteq> 1 / 2"
    by simp
qed

lemma calories_flag_free:
  "toFixed t (real_of_int n * (4 / 100)) 0 = toFixed False (real_of_int n * (4 / 100)) 0"
  "toFixed t (real_of_int n * (4 / 100)) 2 = toFixed False (real_of_int n * (4 / 100)) 2"
proof -
  let ?x = "real_of_int n * (4 / 100)"
  have 0: "\<not> (t \<and> \<bar>?x\<bar> * 10 ^ 0 - real_of_int \<lfloor>\<bar>?x\<bar> * 10 ^ 0\<rfloor> = 1 / 2)"
    using calories_tie_free(1) [of n] by blast
  have 2: "\<not> (t \<and> \<bar>?x\<bar> * 10 ^ 2 - real_of_int \<lfloor>\<bar>?x\<bar> * 10 ^ 2\<rfloor> = 1 / 2)"
    using calories_tie_free(2) [of n] by blast
  show "toFixed t ?x 0 = toFixed False ?x 0"
    unfolding toFixed_def Let_def by (simp only: 0 if_False simp_thms)
  show "toFixed t ?x 2 = toFixed False ?x 2"
    unfolding toFixed_def Let_def by (simp only: 2 if_False simp_thms)
qed

lemma distance_at_tie:
  "calculateDistance True (initialCounter\<lparr>sessionSteps := 7500\<rparr>) = 5.71 \<and>
   calculateDistance False (initialCounter\<lparr>sessionSteps := 7500\<rparr>) = 5.72"
  by (simp add: calculateDistance_def toFixed_def Let_def initialCounter_def)

text \<open>
  At the boundary: an acceleration computed as 0.07999999999999985, or as the double
  0.08 itself, leaves the state down; the next double above 0.08 takes it up.
\<close>

lemma boundary_accelerations:
  "stepState (detectStep (Finite 0.07999999999999985) 1100
     (startCounting 1000 1000 initialCounter)) = Down \<and>
   stepState (detectStep (Finite (5764607523034235 / 2 ^ 56)) 1100
     (startCounting 1000 1000 initialCounter)) = Down \<and>
   stepState (detectStep (Finite (5764607523034236 / 2 ^ 56)) 1100
     (startCounting 1000 1000 initialCounter)) = Up"
  by (simp add: step_defs)

text \<open>
  C1. For a sample \<open>(x, y, z)\<close> the listener works on the Number that the engine
  computes for \<^verbatim>\<open>Math.sqrt(x * x + y * y + z * z) - 1.0\<close>. On that acceleration \<open>a\<close>
  the state goes from down to up exactly when \<open>a\<close> is greater than the double 0.08, and
  from up to down exactly when \<open>a\<close> is less than its negation. The step count grows by
  one exactly on an up-to-down transition for which more than 250 ms have passed since
  \<open>lastStepTime\<close>, which then becomes the time of this sample; otherwise both stay as
  they are. \<open>startCounting\<close> sets the state to down and \<open>lastStepTime\<close> to its own clock
  reading, and as long as a stream of samples has not counted a step, \<open>lastStepTime\<close> is
  still that reading: the 250 ms are measured from the last counted step, or from the
  start of counting before the first one. The double 0.08 differs from 0.08 by less than
  \<open>10\<^sup>-\<^sup>1\<^sup>7\<close>.
\<close>

theorem C1_step_detection:
  "listener ops (x, y, z) now s =
     detectStep
       (num_sub ops
          (num_sqrt ops
             (num_add ops (num_add ops (num_mul ops x x) (num_mul ops y y)) (num_mul ops z z)))
          (Finite 1)) now s \<and>
   (let s' = detectStep a now s;
        rises = number_less (Finite (5764607523034235 / 2 ^ 56)) a;
        falls = number_less a (Finite (- (5764607523034235 / 2 ^ 56)));
        counted = (stepState s = Up \<and> falls \<and> now - lastStepTime s > 250)
    in stepState s' = (if stepState s = Down then (if rises then Up else Down)
                       else (if falls then Down else Up)) \<and>
       sessionSteps s' = (if counted then sessionSteps s + 1 else sessionSteps s) \<and>
       lastStepTime s' = (if counted then now else lastStepTime s)) \<and>
   stepState (startCounting t0 now0 c) = Down \<and>
   lastStepTime (startCounting t0 now0 c) = now0 \<and>
   (sessionSteps (feed ops ds (startCounting t0 now0 c)) = 0 \<longrightarrow>
      lastStepTime (feed ops ds (startCounting t0 now0 c)) = now0) \<and>
   \<bar>5764607523034235 / 2 ^ 56 - 0.08\<bar> < (1 / 10 ^ 17 :: real)"
proof -
  have comp: "listener ops (x, y, z) now s =
     detectStep
       (num_sub ops
          (num_sqrt ops
             (num_add ops (num_add ops (num_mul ops x x) (num_mul ops y y)) (num_mul ops z z)))
          (Finite 1)) now s"
    by (simp add: listener_def acceleration_def magnitude_def)
  have machine: "(let s' = detectStep a now s;
        rises = number_less (Finite (5764607523034235 / 2 ^ 56)) a;
        falls = number_less a (Finite (- (5764607523034235 / 2 ^ 56)));
        counted = (stepState s = Up \<and> falls \<and> now - lastStepTime s > 250)
    in stepState s' = (if stepState s = Down then (if rises then Up else Down)
                       else (if falls then Down else Up)) \<and>
       sessionSteps s' = (if counted then sessionSteps s + 1 else sessionSteps s) \<and>
       lastStepTime s' = (if counted then now else lastStepTime s))"
    by (cases "stepState s")
       (simp_all add: detectStep_def Let_def stepThreshold_def minStepInterval_def)
  have start: "stepState (startCounting t0 now0 c) = Down"
    "lastStepTime (startCounting t0 now0 c) = now0"
    "sessionSteps (startCounting t0 now0 c) = 0"
    by (simp_all add: startCounting_def)
  have before: "lastStepTime (feed ops ds (startCounting t0 now0 c)) = now0"
    if "sessionSteps (feed ops ds (startCounting t0 now0 c)) = 0"
    using feed_time [of ops ds "startCounting t0 now0 c"] that start by simp
  have lit: "\<bar>5764607523034235 / 2 ^ 56 - 0.08\<bar> < (1 / 10 ^ 17 :: real)"
    by simp
  from comp machine start before lit show ?thesis by blast
qed

theorem C1_step_detection_witness:
  "stepState (detectStep (Finite 1) 1100 (startCounting 1000 1000 initialCounter)) = Up \<and>
   sessionSteps (detectStep (Finite 1) 1100 (startCounting 1000 1000 initialCounter)) = 0 \<and>
   lastStepTime (detectStep (Finite 1) 1100 (startCounting 1000 1000 initialCounter)) = 1000 \<and>
   sessionSteps (detectStep (Finite (- 1)) 1200
     (detectStep (Finite 1) 1100 (startCounting 1000 1000 initialCounter))) = 0 \<and>
   stepState oneStepSession = Down \<and> sessionSteps oneStepSession = 1 \<and>
   lastStepTime oneStepSession = 1300 \<and>
   stepState (detectStep NaN 1400 oneStepSession) = Down"
  using C1_step_detection [of _ _ _ _ 1100 "startCounting 1000 1000 initialCounter" "Finite 1"
      1000 1000 initialCounter "[]"]
    C1_step_detection [of _ _ _ _ 1300
      "detectStep (Finite 1) 1100 (startCounting 1000 1000 initialCounter)" "Finite (- 1)"]
    C1_step_detection [of _ _ _ _ 1200
      "detectStep (Finite 1) 1100 (startCounting 1000 1000 initialCounter)" "Finite (- 1)"]
  by (simp add: oneStepSession_def step_defs)

text \<open>
  C2, as the claim states it, fails: after one counted step the live display shows a
  distance of 0.00 km and 0 kcal, not 0.000762 km and 0.04 kcal.
\<close>

theorem C2_counterexample:
  "sessionSteps oneStepSession = 1 \<and>
   calculateDistance False oneStepSession \<noteq> (1 * 0.762) / 1000 \<and>
   calculateDistance True oneStepSession \<noteq> (1 * 0.762) / 1000 \<and>
   calculateCalories oneStepSession \<noteq> 1 * 0.04"
  by (simp add: oneStepSession_steps calculateDistance_def calculateCalories_def toFixed_def)

text \<open>
  C2, amended. For a session with \<open>n \<ge> 0\<close> steps the live display reports
  \<open>n \<times> 0.762 / 1000\<close> km rounded to two decimals and \<open>n \<times> 0.04\<close> kcal rounded to a whole
  number: a multiple of 0.01 within 0.005 km of the estimate, and an integer within
  0.5 kcal of the estimate. \<open>stopCounting\<close> shows the same two rounded values when \<open>n\<close>
  is not 0, and offers to save the distance rounded to two decimals and the calories
  \<open>n \<times> 0.04\<close> (which two decimals hold exactly); for \<open>n = 0\<close> it shows no summary.
\<close>

theorem C2_rounded_metrics:
  assumes "0 \<le> sessionSteps s"
  shows "(let n = real_of_int (sessionSteps s) in
     (\<exists>k::int. calculateDistance tieDown s = real_of_int k / 100) \<and>
     \<bar>calculateDistance tieDown s - n * 0.762 / 1000\<bar> \<le> 0.005 \<and>
     (\<exists>k::int. calculateCalories s = real_of_int k) \<and>
     \<bar>calculateCalories s - n * 0.04\<bar> \<le> 0.5 \<and>
     snd (stopCounting tieDown endT s) =
       (if sessionSteps s = 0 then NoStepsRecorded
        else SessionComplete (sessionSteps s) (calculateDistance tieDown s)
               (calculateCalories s) (duration s)
               \<lparr>session_startTime = startTime s, session_endTime = endT,
                session_steps = sessionSteps s,
                session_distance = calculateDistance tieDown s,
                session_calories = n * 0.04\<rparr>))"
proof -
  define n where "n = real_of_int (sessionSteps s)"
  have n0: "0 \<le> n" using assms by (simp add: n_def)
  have d0: "0 \<le> n * (762 / 1000) / 1000" using n0 by simp
  have c0: "0 \<le> n * (4 / 100)" using n0 by simp
  have dist: "\<exists>k::int. calculateDistance tieDown s = real_of_int k / 100"
    using toFixed_grid [of tieDown _ 2] by (simp add: calculateDistance_def)
  have cal: "\<exists>k::int. calculateCalories s = real_of_int k"
    using toFixed_grid [of False _ 0] by (simp add: calculateCalories_def)
  have dclose: "\<bar>calculateDistance tieDown s - n * 0.762 / 1000\<bar> \<le> 0.005"
    using toFixed_close [OF d0, of tieDown 2] by (simp add: calculateDistance_def n_def)
  have cclose: "\<bar>calculateCalories s - n * 0.04\<bar> \<le> 0.5"
    using toFixed_close [OF c0, of False 0] by (simp add: calculateCalories_def n_def)
  have "n * (4 / 100) * 10 ^ 2 + 1 / 2 = real_of_int (sessionSteps s * 4) + 1 / 2"
    by (simp add: n_def)
  then have "\<lfloor>n * (4 / 100) * 10 ^ 2 + 1 / 2\<rfloor> = sessionSteps s * 4"
    by (intro floor_unique) linarith+
  then have saved: "toFixed False (n * (4 / 100)) 2 = n * 0.04"
    using toFixed_nonneg [OF c0, of False 2] by (simp add: n_def)
  have stop: "snd (stopCounting tieDown endT s) =
       (if sessionSteps s = 0 then NoStepsRecorded
        else SessionComplete (sessionSteps s) (calculateDistance tieDown s)
               (calculateCalories s) (duration s)
               \<lparr>session_startTime = startTime s, session_endTime = endT,
                session_steps = sessionSteps s,
                session_distance = calculateDistance tieDown s,
                session_calories = n * 0.04\<rparr>)"
    using saved
    by (simp add: stopCounting_def Let_def calculateDistance_def calculateCalories_def n_def)
  from dist cal dclose cclose stop show ?thesis
    unfolding n_def Let_def by blast
qed

theorem C2_rounded_metrics_witness:
  "0 \<le> sessionSteps oneStepSession \<and>
   calculateDistance True oneStepSession = 0 \<and> calculateCalories oneStepSession = 0 \<and>
   snd (stopCounting True 5000 oneStepSession) =
     SessionComplete 1 0 0 0
       \<lparr>session_startTime = Some 1000, session_endTime = 5000, session_steps = 1,
        session_distance = 0, session_calories = 0.04\<rparr>"
  using C2_rounded_metrics [of oneStepSession True 5000]
  by (simp add: oneStepSession_steps)
     (simp add: oneStepSession_def step_defs calculateDistance_def calculateCalories_def
        toFixed_def)

text \<open>
  C3. \<open>startCounting\<close> sets the step count to 0; one call of the listener leaves it as it
  is or adds exactly 1; so after any stream of samples the count is not negative, and a
  longer stream never gives a smaller count than its prefix.
\<close>

theorem C3_steps_monotonic:
  "sessionSteps (startCounting t0 now s) = 0 \<and>
   (sessionSteps (listener ops d t c) = sessionSteps c \<or>
    sessionSteps (listener ops d t c) = sessionSteps c + 1) \<and>
   0 \<le> sessionSteps (feed ops ds (startCounting t0 now s)) \<and>
   sessionSteps (feed ops ds (startCounting t0 now s))
     \<le> sessionSteps (feed ops (ds @ es) (startCounting t0 now s))"
proof -
  have start: "sessionSteps (startCounting t0 now s) = 0"
    by (simp add: startCounting_def)
  have "sessionSteps (startCounting t0 now s)
          \<le> sessionSteps (feed ops ds (startCounting t0 now s))"
    by (rule feed_mono)
  then have nonneg: "0 \<le> sessionSteps (feed ops ds (startCounting t0 now s))"
    by (simp add: start)
  have "sessionSteps (feed ops ds (startCounting t0 now s))
          \<le> sessionSteps (feed ops es (feed ops ds (startCounting t0 now s)))"
    by (rule feed_mono)
  then have mono: "sessionSteps (feed ops ds (startCounting t0 now s))
          \<le> sessionSteps (feed ops (ds @ es) (startCounting t0 now s))"
    by (simp add: feed_append)
  from start listener_steps [of ops d t c] nonneg mono show ?thesis by blast
qed

theorem C3_steps_monotonic_witness:
  "sessionSteps (startCounting 1000 1000 initialCounter) = 0 \<and>
   sessionSteps (detectStep (Finite 1) 1100 (startCounting 1000 1000 initialCounter)) = 0 \<and>
   sessionSteps oneStepSession = 1"
  using C3_steps_monotonic [of 1000 1000 initialCounter _ _ _ _ "[]" "[]"]
  by (simp add: oneStepSession_def step_defs)

section \<open>Regular expressions: the matcher and the language\<close>

lemma nil_in_conc: "[] \<in> conc A B \<longleftrightarrow> [] \<in> A \<and> [] \<in> B"
  by (auto simp: conc_def)

lemma cons_in_conc:
  "c # s \<in> conc A B \<longleftrightarrow>
     ([] \<in> A \<and> c # s \<in> B) \<or> (\<exists>u v. s = u @ v \<and> c # u \<in> A \<and> v \<in> B)"
  by (auto simp: conc_def Cons_eq_append_conv)

lemma star_cons_split:
  assumes "w \<in> star A" "w = c # s"
  shows "\<exists>u v. s = u @ v \<and> c # u \<in> A \<and> v \<in> star A"
  using assms
proof (induction arbitrary: s)
  case star_empty
  then show ?case by simp
next
  case (star_more u v)
  show ?case
  proof (cases u)
    case Nil
    with star_more show ?thesis by simp
  next
    case (Cons a u')
    with star_more.prems have "a = c" "s = u' @ v" by simp_all
    with Cons star_more.hyps show ?thesis by blast
  qed
qed

lemma cons_in_star:
  "c # s \<in> star A \<longleftrightarrow> (\<exists>u v. s = u @ v \<and> c # u \<in> A \<and> v \<in> star A)"
proof
  assume "c # s \<in> star A"
  then show "\<exists>u v. s = u @ v \<and> c # u \<in> A \<and> v \<in> star A"
    by (rule star_cons_split) simp
next
  assume "\<exists>u v. s = u @ v \<and> c # u \<in> A \<and> v \<in> star A"
  then obtain u v where "s = u @ v" "c # u \<in> A" "v \<in> star A" by blast
  then show "c # s \<in> star A"
    using star_more [of "c # u" A v] by simp
qed

lemma nullable_lang: "nullable r \<longleftrightarrow> [] \<in> lang r"
  by (induction r) (auto simp: nil_in_conc star_empty)

lemma der_conc:
  "{s. c # s \<in> conc A B} =
     conc {s. c # s \<in> A} B \<union> (if [] \<in> A then {s. c # s \<in> B} else {})"
proof -
  have "conc {s. c # s \<in> A} B = {s. \<exists>u v. s = u @ v \<and> c # u \<in> A \<and> v \<in> B}"
    by (auto simp: conc_def)
  then show ?thesis
    by (auto simp: cons_in_conc)
qed

lemma der_star: "{s. c # s \<in> star A} = conc {s. c # s \<in> A} (star A)"
proof -
  have "conc {s. c # s \<in> A} (star A) = {s. \<exists>u v. s = u @ v \<and> c # u \<in> A \<and> v \<in> star A}"
    by (auto simp: conc_def)
  then show ?thesis
    by (simp add: cons_in_star)
qed

lemma deriv_lang: "lang (deriv c r) = {s. c # s \<in> lang r}"
proof (induction r)
  case (Seq r q)
  then show ?case by (simp add: der_conc nullable_lang)
next
  case (Star r)
  then show ?case by (simp add: der_star)
qed auto

lemma matches_lang: "matches r s \<longleftrightarrow> s \<in> lang r"
  by (induction s arbitrary: r) (simp_all add: nullable_lang deriv_lang)

lemma in_conc: "s \<in> conc A B \<longleftrightarrow> (\<exists>u v. s = u @ v \<and> u \<in> A \<and> v \<in> B)"
  by (auto simp: conc_def)

lemma in_lang_cls: "s \<in> lang (Cls P) \<longleftrightarrow> (\<exists>c. s = [c] \<and> P c)"
  by auto

lemma star_cls: "s \<in> star {[c] | c. P c} \<longleftrightarrow> (\<forall>c \<in> set s. P c)"
proof
  assume "s \<in> star {[c] | c. P c}"
  then show "\<forall>c \<in> set s. P c"
    by induction auto
next
  assume "\<forall>c \<in> set s. P c"
  then show "s \<in> star {[c] | c. P c}"
  proof (induction s)
    case Nil
    show ?case by (rule star_empty)
  next
    case (Cons a s)
    then have "[a] \<in> {[c] | c. P c}" "s \<in> star {[c] | c. P c}" by auto
    then have "[a] @ s \<in> star {[c] | c. P c}" by (rule star_more)
    then show ?case by simp
  qed
qed

lemma lang_plus_cls:
  "s \<in> lang (Plus_rx (Cls P)) \<longleftrightarrow> s \<noteq> [] \<and> (\<forall>c \<in> set s. P c)"
proof (cases s)
  case Nil
  then show ?thesis by (simp add: Plus_rx_def in_conc)
next
  case (Cons a w)
  have "a # w \<in> conc {[c] | c. P c} (star {[c] | c. P c}) \<longleftrightarrow> P a \<and> w \<in> star {[c] | c. P c}"
    by (auto simp: cons_in_conc)
  then show ?thesis
    by (simp add: Cons Plus_rx_def star_cls)
qed

lemma lang_anyThen:
  "s \<in> lang (anyThen P) \<longleftrightarrow>
     (\<exists>v c. s = v @ [c] \<and> (\<forall>x \<in> set v. \<not> isLineTerminator x) \<and> P c)"
  by (auto simp: anyThen_def conc_def star_cls)

lemma lookahead_anyThen:
  "lookahead (anyThen P) t \<longleftrightarrow>
     (\<exists>v c w. t = v @ c # w \<and> (\<forall>x \<in> set v. \<not> isLineTerminator x) \<and> P c)"
proof
  assume "lookahead (anyThen P) t"
  then obtain p where "prefix p t" "p \<in> lang (anyThen P)"
    by (auto simp: lookahead_def matches_lang)
  then obtain v c w where "p = v @ [c]" "\<forall>x \<in> set v. \<not> isLineTerminator x" "P c" "t = p @ w"
    by (auto simp: lang_anyThen prefix_def)
  then show "\<exists>v c w. t = v @ c # w \<and> (\<forall>x \<in> set v. \<not> isLineTerminator x) \<and> P c"
    by auto
next
  assume "\<exists>v c w. t = v @ c # w \<and> (\<forall>x \<in> set v. \<not> isLineTerminator x) \<and> P c"
  then obtain v c w where t: "t = v @ c # w" and v: "\<forall>x \<in> set v. \<not> isLineTerminator x" and c: "P c"
    by blast
  have "prefix (v @ [c]) t" by (simp add: t prefix_def)
  moreover have "v @ [c] \<in> lang (anyThen P)"
    using v c by (auto simp: lang_anyThen)
  ultimately show "lookahead (anyThen P) t"
    by (auto simp: lookahead_def matches_lang)
qed

lemma lookahead_anyThen_member:
  assumes "lookahead (anyThen P) t" "suffix t s"
  shows "\<exists>c \<in> set s. P c"
proof -
  from assms(1) obtain v c w where "t = v @ c # w" "P c"
    by (auto simp: lookahead_anyThen)
  moreover from assms(2) have "set t \<subseteq> set s" by (rule set_mono_suffix)
  ultimately show ?thesis by auto
qed

lemma lookahead_anyThen_whole:
  assumes "c \<in> set s" "P c" "\<forall>x \<in> set s. \<not> isLineTerminator x"
  shows "lookahead (anyThen P) s"
proof -
  from assms(1) obtain v w where "s = v @ c # w" by (auto dest: split_list)
  with assms(2,3) show ?thesis
    by (auto simp: lookahead_anyThen)
qed

lemma lineTerminator_isWhiteSpace: "isLineTerminator c \<Longrightarrow> isWhiteSpace c"
  by (auto simp: isLineTerminator_def isWhiteSpace_def)

lemma passwordRegexTest_members:
  assumes "passwordRegexTest s"
  shows "(\<exists>c \<in> set s. isLower c) \<and> (\<exists>c \<in> set s. isUpper c) \<and> (\<exists>c \<in> set s. isDigit c) \<and>
         (\<exists>c \<in> set s. \<not> (isUpper c \<or> isLower c \<or> isDigit c))"
proof -
  from assms obtain t where t: "suffix t s"
    and l: "lookahead (anyThen isLower) t" and u: "lookahead (anyThen isUpper) t"
    and d: "lookahead (anyThen isDigit) t"
    and o: "lookahead (anyThen (\<lambda>c. \<not> (isUpper c \<or> isLower c \<or> isDigit c))) t"
    by (auto simp: passwordRegexTest_def)
  show ?thesis
    using lookahead_anyThen_member [OF l t] lookahead_anyThen_member [OF u t]
      lookahead_anyThen_member [OF d t] lookahead_anyThen_member [OF o t]
    by blast
qed

lemma passwordRegexTest_no_space:
  assumes "\<forall>c \<in> set s. \<not> isWhiteSpace c"
  shows "passwordRegexTest s \<longleftrightarrow>
     (\<exists>c \<in> set s. isLower c) \<and> (\<exists>c \<in> set s. isUpper c) \<and> (\<exists>c \<in> set s. isDigit c) \<and>
     (\<exists>c \<in> set s. \<not> (isUpper c \<or> isLower c \<or> isDigit c))"
proof
  assume "passwordRegexTest s"
  then show "(\<exists>c \<in> set s. isLower c) \<and> (\<exists>c \<in> set s. isUpper c) \<and> (\<exists>c \<in> set s. isDigit c) \<and>
     (\<exists>c \<in> set s. \<not> (isUpper c \<or> isLower c \<or> isDigit c))"
    by (rule passwordRegexTest_members)
next
  assume r: "(\<exists>c \<in> set s. isLower c) \<and> (\<exists>c \<in> set s. isUpper c) \<and> (\<exists>c \<in> set s. isDigit c) \<and>
     (\<exists>c \<in> set s. \<not> (isUpper c \<or> isLower c \<or> isDigit c))"
  from assms have nl: "\<forall>x \<in> set s. \<not> isLineTerminator x"
    using lineTerminator_isWhiteSpace by blast
  have "lookahead (anyThen isLower) s" "lookahead (anyThen isUpper) s"
    "lookahead (anyThen isDigit) s"
    "lookahead (anyThen (\<lambda>c. \<not> (isUpper c \<or> isLower c \<or> isDigit c))) s"
    using r nl by (blast intro: lookahead_anyThen_whole)+
  moreover have "s \<in> set (suffixes s)" by simp
  ultimately show "passwordRegexTest s"
    unfolding passwordRegexTest_def by blast
qed

lemma search_cls: "search (Cls P) s \<longleftrightarrow> (\<exists>c \<in> set s. P c)"
proof
  assume "search (Cls P) s"
  then obtain t p where t: "suffix t s" and p: "prefix p t" and m: "p \<in> lang (Cls P)"
    by (auto simp: search_def lookahead_def matches_lang)
  from m obtain c where "p = [c]" "P c" by auto
  with p have "c \<in> set t" by (auto simp: prefix_def)
  with t have "c \<in> set s" using set_mono_suffix by blast
  with \<open>P c\<close> show "\<exists>c \<in> set s. P c" by blast
next
  assume "\<exists>c \<in> set s. P c"
  then obtain c where "c \<in> set s" "P c" by blast
  then obtain u w where s: "s = u @ c # w" by (auto dest: split_list)
  have "suffix (c # w) s" by (simp add: s suffix_def)
  moreover have "prefix [c] (c # w)" by simp
  moreover have "[c] \<in> lang (Cls P)" using \<open>P c\<close> by simp
  ultimately have "\<exists>t. suffix t s \<and> (\<exists>p. prefix p t \<and> p \<in> lang (Cls P))" by blast
  then show "search (Cls P) s"
    by (simp add: search_def lookahead_def matches_lang Bex_def)
qed

lemma in_conc_cls:
  "s \<in> conc (lang (Cls P)) B \<longleftrightarrow> (\<exists>c v. s = c # v \<and> P c \<and> v \<in> B)"
  by (cases s) (auto simp: nil_in_conc cons_in_conc)

lemma emailRegex_lang:
  "s \<in> lang emailRegex \<longleftrightarrow>
      (\<exists>a b c. s = a @ 64 # b @ 46 # c \<and>
         a \<in> lang (Plus_rx (Cls notSpaceOrAt)) \<and> b \<in> lang (Plus_rx (Cls notSpaceOrAt)) \<and>
         c \<in> lang (Plus_rx (Cls notSpaceOrAt)))"
proof -
  let ?L = "lang (Plus_rx (Cls notSpaceOrAt))"
  have 1: "\<And>t. t \<in> conc (lang (Cls (\<lambda>c. c = 46))) ?L \<longleftrightarrow> (\<exists>c. t = 46 # c \<and> c \<in> ?L)"
    unfolding in_conc_cls by blast
  have 2: "\<And>t. t \<in> conc ?L (conc (lang (Cls (\<lambda>c. c = 46))) ?L)
              \<longleftrightarrow> (\<exists>b c. t = b @ 46 # c \<and> b \<in> ?L \<and> c \<in> ?L)"
    unfolding in_conc [of _ ?L] 1 by blast
  have 3: "\<And>t. t \<in> conc (lang (Cls (\<lambda>c. c = 64))) (conc ?L (conc (lang (Cls (\<lambda>c. c = 46))) ?L))
              \<longleftrightarrow> (\<exists>b c. t = 64 # b @ 46 # c \<and> b \<in> ?L \<and> c \<in> ?L)"
    unfolding in_conc_cls 2 by blast
  have "s \<in> lang emailRegex \<longleftrightarrow>
      s \<in> conc ?L (conc (lang (Cls (\<lambda>c. c = 64))) (conc ?L (conc (lang (Cls (\<lambda>c. c = 46))) ?L)))"
    by (simp only: emailRegex_def lang.simps(4))
  also have "\<dots> \<longleftrightarrow> (\<exists>a b c. s = a @ 64 # b @ 46 # c \<and> a \<in> ?L \<and> b \<in> ?L \<and> c \<in> ?L)"
    unfolding in_conc [of _ ?L] 3 by blast
  finally show ?thesis .
qed

lemma emailRegex_shape:
  "matches emailRegex s \<longleftrightarrow>
     (\<exists>a b c. s = a @ 64 # b @ 46 # c \<and> a \<noteq> [] \<and> b \<noteq> [] \<and> c \<noteq> [] \<and>
        (\<forall>x \<in> set (a @ b @ c). notSpaceOrAt x))"
  unfolding matches_lang emailRegex_lang lang_plus_cls
  by (simp add: ball_Un) blast

lemma emailRegex_no_space:
  assumes "matches emailRegex s"
  shows "s \<noteq> [] \<and> (\<forall>x \<in> set s. \<not> isWhiteSpace x)"
proof -
  have "\<not> isWhiteSpace 64" "\<not> isWhiteSpace 46"
    by (simp_all add: isWhiteSpace_def)
  with assms show ?thesis
    by (auto simp: emailRegex_shape notSpaceOrAt_def)
qed

lemma trim_no_space: "\<forall>x \<in> set s. \<not> isWhiteSpace x \<Longrightarrow> trim s = s"
proof (cases s rule: rev_cases)
  case Nil
  then show ?thesis by (simp add: trim_def)
next
  case (snoc w a)
  assume ns: "\<forall>x \<in> set s. \<not> isWhiteSpace x"
  then have "dropWhile isWhiteSpace s = s"
    by (cases s) auto
  moreover have "dropWhile isWhiteSpace (rev s) = rev s"
    using ns snoc by simp
  ultimately show ?thesis by (simp add: trim_def)
qed

section \<open>Properties of the forms\<close>

lemmas char_defs = isWhiteSpace_def isLineTerminator_def isLower_def isUpper_def isDigit_def
  notSpaceOrAt_def

lemma newErrors_empty_iff:
  "newErrors f = [] \<longleftrightarrow>
     trim (firstName f) \<noteq> [] \<and> trim (lastName f) \<noteq> [] \<and>
     trim (email f) \<noteq> [] \<and> matches emailRegex (email f) \<and>
     password f \<noteq> [] \<and> 8 \<le> length (password f) \<and> passwordRegexTest (password f) \<and>
     \<not> search (Cls isWhiteSpace) (password f) \<and>
     confirmPassword f \<noteq> [] \<and> password f = confirmPassword f"
  by (auto simp: newErrors_def)

text \<open>
  C7. \<open>validateForm\<close> returns true exactly when first and last name are not empty
  after trimming, the email is not empty and matches the email pattern, the password is
  not empty, has at least 8 code units, contains a lower-case letter, an upper-case
  letter, a digit and a character that is none of these, contains no whitespace, and the
  confirmation is not empty and equals the password. \<open>handleSignup\<close> posts to the
  backend exactly when \<open>validateForm\<close> returns true.
\<close>

theorem C7_signup_validation:
  "(validateForm f \<longleftrightarrow>
      trim (firstName f) \<noteq> [] \<and> trim (lastName f) \<noteq> [] \<and>
      email f \<noteq> [] \<and> matches emailRegex (email f) \<and>
      password f \<noteq> [] \<and> 8 \<le> length (password f) \<and>
      (\<exists>c \<in> set (password f). isLower c) \<and> (\<exists>c \<in> set (password f). isUpper c) \<and>
      (\<exists>c \<in> set (password f). isDigit c) \<and>
      (\<exists>c \<in> set (password f). \<not> (isLower c \<or> isUpper c \<or> isDigit c)) \<and>
      (\<forall>c \<in> set (password f). \<not> isWhiteSpace c) \<and>
      confirmPassword f \<noteq> [] \<and> confirmPassword f = password f) \<and>
   (validateForm f \<longleftrightarrow> posts (handleSignup caseTable out f) \<noteq> [])"
proof -
  have email: "trim (email f) \<noteq> [] \<and> matches emailRegex (email f) \<longleftrightarrow>
      email f \<noteq> [] \<and> matches emailRegex (email f)"
    using emailRegex_no_space [of "email f"] trim_no_space [of "email f"] by auto
  have pw: "passwordRegexTest (password f) \<and> \<not> search (Cls isWhiteSpace) (password f) \<longleftrightarrow>
      (\<exists>c \<in> set (password f). isLower c) \<and> (\<exists>c \<in> set (password f). isUpper c) \<and>
      (\<exists>c \<in> set (password f). isDigit c) \<and>
      (\<exists>c \<in> set (password f). \<not> (isLower c \<or> isUpper c \<or> isDigit c)) \<and>
      (\<forall>c \<in> set (password f). \<not> isWhiteSpace c)"
    using passwordRegexTest_no_space [of "password f"]
    by (auto simp: search_cls)
  have "validateForm f \<longleftrightarrow> newErrors f = []"
    by (simp add: validateForm_def)
  then have 1: "validateForm f \<longleftrightarrow>
      trim (firstName f) \<noteq> [] \<and> trim (lastName f) \<noteq> [] \<and>
      (trim (email f) \<noteq> [] \<and> matches emailRegex (email f)) \<and>
      password f \<noteq> [] \<and> 8 \<le> length (password f) \<and>
      (passwordRegexTest (password f) \<and> \<not> search (Cls isWhiteSpace) (password f)) \<and>
      confirmPassword f \<noteq> [] \<and> password f = confirmPassword f"
    by (simp add: newErrors_empty_iff conj_ac)
  have 2: "validateForm f \<longleftrightarrow> posts (handleSignup caseTable out f) \<noteq> []"
    by (simp add: handleSignup_def posts_def)
  show ?thesis
    unfolding 2 [symmetric] unfolding 1 email pw by (auto simp: eq_commute)
qed

lemma validSignup_ok: "validateForm validSignup"
  by (simp add: validateForm_def newErrors_def validSignup_def js_def trim_def
        emailRegex_def Plus_rx_def passwordRegexTest_def lookahead_def search_def anyThen_def
        char_defs)

theorem C7_signup_validation_witness:
  "validateForm validSignup \<and> posts (handleSignup (\<lambda>t. t) Resolves validSignup) \<noteq> [] \<and>
   \<not> validateForm
       (validSignup\<lparr>password := js ''abcdefg1!'', confirmPassword := js ''abcdefg1!''\<rparr>) \<and>
   posts (handleSignup (\<lambda>t. t) Resolves
       (validSignup\<lparr>password := js ''abcdefg1!'', confirmPassword := js ''abcdefg1!''\<rparr>)) = []"
proof -
  let ?weak =
    "validSignup\<lparr>password := js ''abcdefg1!'', confirmPassword := js ''abcdefg1!''\<rparr>"
  have ok: "validateForm validSignup" by (rule validSignup_ok)
  with C7_signup_validation [of validSignup "\<lambda>t. t" Resolves]
  have sent: "posts (handleSignup (\<lambda>t. t) Resolves validSignup) \<noteq> []" by blast
  have "\<not> (\<exists>c \<in> set (password ?weak). isUpper c)"
    by (simp add: js_def isUpper_def)
  with C7_signup_validation [of ?weak "\<lambda>t. t" Resolves]
  have "\<not> validateForm ?weak" "posts (handleSignup (\<lambda>t. t) Resolves ?weak) = []" by blast+
  with ok sent show ?thesis by blast
qed

lemma toLowerCase_ascii:
  "\<forall>c \<in> set s. c < 128 \<Longrightarrow>
   toLowerCase caseTable s = map (\<lambda>c. if isUpper c then c + 32 else c) s"
  by (simp add: toLowerCase_def)

lemma toLowerCase_beyond_ascii:
  "\<not> (\<forall>c \<in> set s. c < 128) \<Longrightarrow> toLowerCase caseTable s = caseTable s"
  unfolding toLowerCase_def by (simp only: if_False)

text \<open>
  C9, as the claim states it, fails: a login with the email \<^verbatim>\<open>Ann@Mail.com\<close> sends
  \<^verbatim>\<open>ann@mail.com\<close>, and a signup with the first name \<^verbatim>\<open> Ann\<close> (a leading space)
  sends \<^verbatim>\<open>Ann\<close>. The strings here are ASCII, for which \<open>toLowerCase\<close> does not look at
  the case table (\<open>toLowerCase_ascii\<close>); the table given plays no part.
\<close>

theorem C9_counterexample:
  "posts (handleLogin (\<lambda>t. t) Resolves (js ''Ann@Mail.com'') (js ''secret'')) =
     [(''/auth/login'', LoginCredentials (js ''ann@mail.com'') (js ''secret''))] \<and>
   js ''ann@mail.com'' \<noteq> js ''Ann@Mail.com'' \<and>
   posts (handleSignup (\<lambda>t. t) Resolves validSignup) =
     [(''/auth/signup'',
       SignupData (js ''ann@mail.com'') (js ''Abcdef1!'') (js ''Abcdef1!'') (js ''Ann'')
         (js ''Lee'') patient)] \<and>
   js ''Ann'' \<noteq> firstName validSignup"
  by (simp add: validSignup_ok handleSignup_def)
     (simp add: handleLogin_def posts_def validSignup_def js_def trim_def toLowerCase_def char_defs)

lemma validateForm_fields:
  assumes "validateForm f"
  shows "trim (email f) = email f" and "confirmPassword f = password f"
proof -
  from assms have e: "newErrors f = []" by (simp add: validateForm_def)
  then have "matches emailRegex (email f)" by (simp add: newErrors_empty_iff)
  then show "trim (email f) = email f"
    using emailRegex_no_space [of "email f"] trim_no_space [of "email f"] by blast
  from e show "confirmPassword f = password f" by (simp add: newErrors_empty_iff)
qed

text \<open>
  C9, amended. A login that passes the check for empty fields sends the password as
  entered and, as the email, the result of \<open>toLowerCase\<close> on the trimmed entry. A signup
  that passes \<open>validateForm\<close> sends the password and its confirmation as entered, as the
  email the result of \<open>toLowerCase\<close> on the entry (a valid email has no whitespace to
  trim), and the first and last name trimmed. \<open>toLowerCase\<close> is the engine's: whatever
  its case mapping, on an ASCII string it turns A to Z into a to z and changes nothing
  else, and on any other string it returns what the engine's mapping returns.
\<close>

theorem C9_normalized_submission:
  "(trim e \<noteq> [] \<and> trim p \<noteq> [] \<longrightarrow>
      posts (handleLogin caseTable out e p) =
        [(''/auth/login'', LoginCredentials (toLowerCase caseTable (trim e)) p)]) \<and>
   (validateForm f \<longrightarrow>
      posts (handleSignup caseTable out f) =
        [(''/auth/signup'',
          SignupData (toLowerCase caseTable (email f)) (password f) (password f)
            (trim (firstName f)) (trim (lastName f)) patient)]) \<and>
   ((\<forall>c \<in> set t. c < 128) \<longrightarrow>
      toLowerCase caseTable t = map (\<lambda>c. if 65 \<le> c \<and> c \<le> 90 then c + 32 else c) t) \<and>
   (\<not> (\<forall>c \<in> set t. c < 128) \<longrightarrow> toLowerCase caseTable t = caseTable t)"
proof -
  have login: "posts (handleLogin caseTable out e p) =
      [(''/auth/login'', LoginCredentials (toLowerCase caseTable (trim e)) p)]"
    if "trim e \<noteq> [] \<and> trim p \<noteq> []"
    using that by (cases out) (simp_all add: handleLogin_def posts_def)
  have signup: "posts (handleSignup caseTable out f) =
        [(''/auth/signup'',
          SignupData (toLowerCase caseTable (email f)) (password f) (password f)
            (trim (firstName f)) (trim (lastName f)) patient)]"
    if "validateForm f"
    using that validateForm_fields [OF that]
    by (cases out) (simp_all add: handleSignup_def posts_def)
  have ascii: "toLowerCase caseTable t = map (\<lambda>c. if 65 \<le> c \<and> c \<le> 90 then c + 32 else c) t"
    if "\<forall>c \<in> set t. c < 128"
    using that by (simp add: toLowerCase_ascii isUpper_def)
  have other: "toLowerCase caseTable t = caseTable t" if "\<not> (\<forall>c \<in> set t. c < 128)"
    using that by (rule toLowerCase_beyond_ascii)
  from login signup ascii other show ?thesis by blast
qed

theorem C9_normalized_submission_witness:
  "posts (handleLogin (\<lambda>t. t) Throws (js '' Ann@Mail.com'') (js ''Secret 1'')) =
     [(''/auth/login'', LoginCredentials (js ''ann@mail.com'') (js ''Secret 1''))] \<and>
   posts (handleSignup (\<lambda>t. t) Throws validSignup) =
     [(''/auth/signup'',
       SignupData (js ''ann@mail.com'') (js ''Abcdef1!'') (js ''Abcdef1!'') (js ''Ann'')
         (js ''Lee'') patient)] \<and>
   posts (handleLogin (\<lambda>t. [233, 64, 120, 46, 121]) Throws [201, 64, 88, 46, 121] (js ''pw'')) =
     [(''/auth/login'', LoginCredentials [233, 64, 120, 46, 121] (js ''pw''))]"
proof -
  have 1: "trim (js '' Ann@Mail.com'') \<noteq> [] \<and> trim (js ''Secret 1'') \<noteq> []"
    by (simp add: js_def trim_def char_defs)
  have 2: "trim [201, 64, 88, 46, 121] \<noteq> [] \<and> trim (js ''pw'') \<noteq> []"
    by (simp add: js_def trim_def char_defs)
  have 3: "\<forall>c \<in> set (js ''Ann@Mail.com''). c < 128" by (simp add: js_def)
  have 4: "\<not> (\<forall>c \<in> set [201, 64, 88, 46, 121 :: nat]. c < 128)" by simp
  show ?thesis
    using C9_normalized_submission [of "js '' Ann@Mail.com''" "js ''Secret 1''" "\<lambda>t. t" Throws
        validSignup "js ''Ann@Mail.com''"]
      C9_normalized_submission [of "[201, 64, 88, 46, 121]" "js ''pw''"
        "\<lambda>t. [233, 64, 120, 46, 121]" Throws validSignup "[201, 64, 88, 46, 121]"]
      validSignup_ok 1 2 3 4
    by (simp add: validSignup_def js_def trim_def char_defs)
qed

section \<open>Properties of the API client, the auth context and the screens\<close>

lemmas key_defs = STORAGE_KEYS_TOKEN_def STORAGE_KEYS_USER_def

text \<open>
  C4. The error handler of the response interceptor always rejects with the error it
  was given. It removes the two keys \<^verbatim>\<open>@kneeklinic:token\<close> and \<^verbatim>\<open>@kneeklinic:user\<close>
  when the status of the error is 401 and leaves the storage as it is for any other
  status and when there is no response; the success handler changes nothing. So for
  every reply of the network the credentials are removed exactly when it is a response
  with status 401.
\<close>

theorem C4_unauthorized_clears_credentials:
  "snd (responseRejected error storage) = Inl error \<and>
   fst (responseRejected error storage) =
     (if response_status error = Some 401
      then storage(''@kneeklinic:token'' := None, ''@kneeklinic:user'' := None)
      else storage) \<and>
   responseFulfilled response storage = (storage, Inr response) \<and>
   fst (settle r storage) =
     (if r = Response 401
      then storage(''@kneeklinic:token'' := None, ''@kneeklinic:user'' := None)
      else storage)"
  by (cases r)
     (simp_all add: responseRejected_def responseFulfilled_def settle_def multiRemove_def key_defs)

theorem C4_unauthorized_clears_credentials_witness:
  "fst (settle (Response 401) signedInStorage) ''@kneeklinic:token'' = None \<and>
   fst (settle (Response 401) signedInStorage) ''@kneeklinic:user'' = None \<and>
   fst (settle (Response 401) signedInStorage) ''@kneeklinic:hasOnboarded'' = Some (js ''true'') \<and>
   fst (settle (Response 403) signedInStorage) = signedInStorage \<and>
   fst (settle NoResponse signedInStorage) = signedInStorage"
  using C4_unauthorized_clears_credentials [of _ signedInStorage _ "Response 401"]
    C4_unauthorized_clears_credentials [of _ signedInStorage _ "Response 403"]
    C4_unauthorized_clears_credentials [of _ signedInStorage _ NoResponse]
  by (simp add: signedInStorage_def)

text \<open>
  C5. After \<open>logout\<close>, whatever the server's reply to the logout request (including no
  reply at all), the user and the token are null, \<open>isAuthenticated\<close> is false and both
  storage keys are removed.
\<close>

theorem C5_logout_discards_auth:
  "(let (a', storage') = logout r (a, storage)
    in user a' = None \<and> token a' = None \<and> \<not> isAuthenticated a' \<and>
       storage' ''@kneeklinic:token'' = None \<and> storage' ''@kneeklinic:user'' = None)"
  by (simp add: logout_def authService_logout_def clearAuthData_def isAuthenticated_def
        multiRemove_def key_defs split: prod.splits sum.splits)

theorem C5_logout_discards_auth_witness:
  "isAuthenticated \<lparr>user = Some (0::nat), token = Some (js ''abc''), isLoading = False\<rparr> \<and>
   logout NoResponse
     (\<lparr>user = Some (0::nat), token = Some (js ''abc''), isLoading = False\<rparr>, signedInStorage) =
   (\<lparr>user = None, token = None, isLoading = False\<rparr>,
    [''@kneeklinic:hasOnboarded'' \<mapsto> js ''true''])"
  using C5_logout_discards_auth [of NoResponse
      "\<lparr>user = Some (0::nat), token = Some (js ''abc''), isLoading = False\<rparr>" signedInStorage]
  by (auto simp: isAuthenticated_def js_def logout_def authService_logout_def clearAuthData_def
        apiClient_post_def settle_def responseRejected_def multiRemove_def key_defs
        signedInStorage_def fun_eq_iff)

text \<open>
  C6, as the claim states it, fails: with the empty string stored under
  \<^verbatim>\<open>@kneeklinic:token\<close> the request carries no Authorization header, not the header
  \<^verbatim>\<open>Bearer \<close> followed by the stored value.
\<close>

theorem C6_counterexample:
  "[''@kneeklinic:token'' \<mapsto> []] ''@kneeklinic:token'' = Some [] \<and>
   headers (apiClient_request ''/auth/user'' NoBody Map.empty [''@kneeklinic:token'' \<mapsto> []])
     ''Authorization'' \<noteq> Some (js ''Bearer '' @ [])"
  by (simp add: apiClient_request_def requestInterceptor_def key_defs)

text \<open>
  C6, amended. If a non-empty token is stored under \<^verbatim>\<open>@kneeklinic:token\<close>, the
  Authorization header of the request is \<^verbatim>\<open>Bearer \<close> followed by that token. If no
  token or the empty string is stored, the interceptor adds no Authorization header: the
  request carries one only if its caller passed one.
\<close>

theorem C6_bearer_token:
  "headers (requestInterceptor storage config) ''Authorization'' =
     (case storage ''@kneeklinic:token'' of
        None \<Rightarrow> headers config ''Authorization''
      | Some t \<Rightarrow> if t = [] then headers config ''Authorization'' else Some (js ''Bearer '' @ t)) \<and>
   headers (apiClient_request u b hs storage) ''Authorization'' =
     (case storage ''@kneeklinic:token'' of
        None \<Rightarrow> hs ''Authorization''
      | Some t \<Rightarrow> if t = [] then hs ''Authorization'' else Some (js ''Bearer '' @ t))"
  by (simp add: apiClient_request_def requestInterceptor_def key_defs Let_def map_add_def
        split: option.splits)

theorem C6_bearer_token_witness:
  "headers (apiClient_request ''/auth/user'' NoBody Map.empty signedInStorage) ''Authorization''
     = Some (js ''Bearer abc'') \<and>
   headers (apiClient_request ''/auth/user'' NoBody Map.empty Map.empty) ''Authorization'' = None"
  using C6_bearer_token [of signedInStorage _ "''/auth/user''" NoBody Map.empty]
    C6_bearer_token [of Map.empty _ "''/auth/user''" NoBody Map.empty]
  by (simp add: signedInStorage_def js_def)

text \<open>
  C8. \<open>handleVerify\<close> posts to \<^verbatim>\<open>/auth/verify-otp\<close> exactly when the joined code has
  length 6, and then sends the joined code; it shows the local error alert, and leaves
  the screen as it is, exactly when the length differs from 6. When the verification
  throws, the OTP input becomes six empty strings.
\<close>

theorem C8_otp_length_gate:
  "posts (snd (handleVerify out st)) =
     (if length (concat (otp st)) = 6
      then [(''/auth/verify-otp'', OTPVerification (route_email st) (concat (otp st)))]
      else []) \<and>
   (Alert ''Error'' ''Please enter the complete OTP code'' \<in> set (snd (handleVerify out st))
      \<longleftrightarrow> length (concat (otp st)) \<noteq> 6) \<and>
   (length (concat (otp st)) \<noteq> 6 \<longrightarrow> fst (handleVerify out st) = st) \<and>
   (length (concat (otp st)) = 6 \<longrightarrow>
      otp (fst (handleVerify Throws st)) = [[], [], [], [], [], []] \<and>
      otp (fst (handleVerify Resolves st)) = otp st)"
  by (cases out) (simp_all add: handleVerify_def Let_def OTP_LENGTH_def posts_def eval_nat_numeral)

theorem C8_otp_length_gate_witness:
  "posts (snd (handleVerify Throws enteredOtp)) =
     [(''/auth/verify-otp'', OTPVerification (js ''ann@mail.com'') (js ''123456''))] \<and>
   otp (fst (handleVerify Throws enteredOtp)) = [[], [], [], [], [], []] \<and>
   posts (snd (handleVerify Throws (enteredOtp\<lparr>otp := [js ''1'', [], [], [], [], []]\<rparr>))) = [] \<and>
   fst (handleVerify Throws (enteredOtp\<lparr>otp := [js ''1'', [], [], [], [], []]\<rparr>)) =
     enteredOtp\<lparr>otp := [js ''1'', [], [], [], [], []]\<rparr>"
  using C8_otp_length_gate [of Throws enteredOtp]
    C8_otp_length_gate [of Throws "enteredOtp\<lparr>otp := [js ''1'', [], [], [], [], []]\<rparr>"]
  by (simp add: enteredOtp_def js_def)

lemma toggleExercise_without_plan:
  "selectedPlan st = None \<or> plans st = None \<Longrightarrow> toggleExercise exerciseId now out st = (st, [])"
  by (auto simp: toggleExercise_def split: option.splits)

text \<open>
  C10. A toggle whose save throws leaves \<open>completedExercises\<close> exactly as it was before
  the toggle. With a plan selected and the plans loaded (the only state in which the
  screen shows exercises to toggle), \<open>toggleExercise\<close> flips the membership of the
  exercise (removing it if present, appending it if absent) without touching any other
  exercise, posts the new list, and keeps the new list when the save succeeds.
\<close>

theorem C10_toggle_atomic:
  "completedExercises (fst (toggleExercise exerciseId now Throws st)) = completedExercises st \<and>
   (selectedPlan st = Some level \<and> plans st = Some ps \<longrightarrow>
     (let old = completedExercises st;
          new = (if exerciseId \<in> set old then removeAll exerciseId old else old @ [exerciseId])
      in posts (snd (toggleExercise exerciseId now out st)) =
           [(''/activity/exercise/log'', ExerciseLog level new (length (exercises (ps level))))] \<and>
         (exerciseId \<in> set new \<longleftrightarrow> exerciseId \<notin> set old) \<and>
         (\<forall>i. i \<noteq> exerciseId \<longrightarrow> (i \<in> set new \<longleftrightarrow> i \<in> set old)) \<and>
         completedExercises (fst (toggleExercise exerciseId now Resolves st)) = new))"
proof -
  have f: "filter (\<lambda>i. i \<noteq> exerciseId) xs = removeAll exerciseId xs" for xs
    by (induction xs) auto
  have restore:
    "completedExercises (fst (toggleExercise exerciseId now Throws st)) = completedExercises st"
    by (simp add: toggleExercise_def Let_def split: option.splits)
  have flip: "(let old = completedExercises st;
          new = (if exerciseId \<in> set old then removeAll exerciseId old else old @ [exerciseId])
      in posts (snd (toggleExercise exerciseId now out st)) =
           [(''/activity/exercise/log'', ExerciseLog level new (length (exercises (ps level))))] \<and>
         (exerciseId \<in> set new \<longleftrightarrow> exerciseId \<notin> set old) \<and>
         (\<forall>i. i \<noteq> exerciseId \<longrightarrow> (i \<in> set new \<longleftrightarrow> i \<in> set old)) \<and>
         completedExercises (fst (toggleExercise exerciseId now Resolves st)) = new)"
    if "selectedPlan st = Some level \<and> plans st = Some ps"
    using that by (cases out) (auto simp: toggleExercise_def Let_def posts_def f)
  from restore flip show ?thesis by blast
qed

theorem C10_toggle_atomic_witness:
  "posts (snd (toggleExercise (js ''e2'') 7 Throws exerciseDay)) =
     [(''/activity/exercise/log'', ExerciseLog moderate [js ''e1'', js ''e2''] 2)] \<and>
   completedExercises (fst (toggleExercise (js ''e2'') 7 Throws exerciseDay)) = [js ''e1''] \<and>
   completedExercises (fst (toggleExercise (js ''e2'') 7 Resolves exerciseDay)) =
     [js ''e1'', js ''e2''] \<and>
   completedExercises (fst (toggleExercise (js ''e1'') 7 Resolves exerciseDay)) = []"
proof -
  have sel: "selectedPlan exerciseDay = Some moderate" by (simp add: exerciseDay_def)
  obtain ps where ps: "plans exerciseDay = Some ps" by (simp add: exerciseDay_def)
  have ex: "exercises (ps moderate) = [Exercise (js ''e1'') [] [] [], Exercise (js ''e2'') [] [] []]"
    using ps by (auto simp: exerciseDay_def)
  show ?thesis
    using C10_toggle_atomic [of "js ''e2''" 7 exerciseDay moderate ps Throws]
      C10_toggle_atomic [of "js ''e1''" 7 exerciseDay moderate ps Resolves] sel ps ex
    by (simp add: Let_def) (simp add: exerciseDay_def js_def)
qed

end
